theory Spec2Isabelle
  imports
    Main
    "HOL-Library.Sublist"
    "HOL-Library.Char_ord"
    "HOL-Library.List_Lexorder"
    "HOL-Library.Product_Lexorder"
begin

chapter \<open>Smart Meal: the recipe preprocessing script\<close>

text \<open>
  A shallow embedding of \<^verbatim>\<open>smartmeal-app/scripts/preprocess_recipes.py\<close>.

  Python strings are modelled as \<^typ>\<open>string\<close>, a list of 8-bit characters, each read
  as the code point of the same number: the model covers the strings over U+0000 to
  U+00FF. On these code points \<^verbatim>\<open>str.lower\<close> maps one character to one character,
  and the classes \<^verbatim>\<open>\s\<close>, \<^verbatim>\<open>\d\<close> and \<^verbatim>\<open>\w\<close> of the \<^verbatim>\<open>re\<close> module
  (Unicode matching, the default for \<^verbatim>\<open>str\<close> patterns) are the finite sets written out
  below. Python integers are \<^typ>\<open>int\<close>; indices and counts that cannot be negative
  are \<^typ>\<open>nat\<close>.
\<close>

section \<open>Strings\<close>

text \<open>\<^verbatim>\<open>str.lower()\<close> on one code point: A-Z, and the capital letters U+00C0 to U+00DE
  with the exception of the multiplication sign U+00D7, move up by 32.\<close>

definition lower_char :: "char \<Rightarrow> char" where
  "lower_char c =
     (let n = (of_char c :: nat) in
      if (65 \<le> n \<and> n \<le> 90) \<or> (192 \<le> n \<and> n \<le> 222 \<and> n \<noteq> 215)
      then char_of (n + 32) else c)"

definition lower :: "string \<Rightarrow> string" where
  "lower s = map lower_char s"

text \<open>The character class \<^verbatim>\<open>[a-zA-Z0-9]\<close>.\<close>

definition is_ascii_alnum :: "char \<Rightarrow> bool" where
  "is_ascii_alnum c =
     (let n = (of_char c :: nat) in
      (97 \<le> n \<and> n \<le> 122) \<or> (65 \<le> n \<and> n \<le> 90) \<or> (48 \<le> n \<and> n \<le> 57))"

text \<open>The class \<^verbatim>\<open>\s\<close>, which is also what \<^verbatim>\<open>str.strip()\<close> removes: the ASCII
  whitespace U+0009 to U+000D, the separators U+001C to U+001F, the space, U+0085 and
  the no-break space U+00A0.\<close>

definition isspace :: "char \<Rightarrow> bool" where
  "isspace c =
     (let n = (of_char c :: nat) in
      (9 \<le> n \<and> n \<le> 13) \<or> (28 \<le> n \<and> n \<le> 32) \<or> n = 133 \<or> n = 160)"

text \<open>The class \<^verbatim>\<open>\d\<close>: below U+0100 the decimal digits are 0 to 9 only.\<close>

definition is_digit :: "char \<Rightarrow> bool" where
  "is_digit c = (let n = (of_char c :: nat) in 48 \<le> n \<and> n \<le> 57)"

text \<open>The class \<^verbatim>\<open>\w\<close>: the underscore and every alphanumeric code point, which below
  U+0100 also takes in the ordinal indicators, the micro sign, the superscript digits,
  the vulgar fractions and the accented letters.\<close>

definition is_word_char :: "char \<Rightarrow> bool" where
  "is_word_char c =
     (let n = (of_char c :: nat) in
      (48 \<le> n \<and> n \<le> 57) \<or> (65 \<le> n \<and> n \<le> 90) \<or> n = 95 \<or> (97 \<le> n \<and> n \<le> 122)
      \<or> n = 170 \<or> n = 178 \<or> n = 179 \<or> n = 181 \<or> n = 185 \<or> n = 186
      \<or> (188 \<le> n \<and> n \<le> 190) \<or> (192 \<le> n \<and> n \<le> 214) \<or> (216 \<le> n \<and> n \<le> 246)
      \<or> 248 \<le> n)"

text \<open>\<^verbatim>\<open>s.strip()\<close>: whitespace is dropped from both ends.\<close>

definition strip :: "string \<Rightarrow> string" where
  "strip s = rev (dropWhile isspace (rev (dropWhile isspace s)))"

text \<open>\<^verbatim>\<open>sep.join(xs)\<close>.\<close>

fun join :: "string \<Rightarrow> string list \<Rightarrow> string" where
  "join sep [] = []"
| "join sep [x] = x"
| "join sep (x # y # ys) = x @ sep @ join sep (y # ys)"

text \<open>\<^verbatim>\<open>needle in hay\<close> on strings: the needle starts at some position of the hay.\<close>

fun py_in :: "string \<Rightarrow> string \<Rightarrow> bool" where
  "py_in needle [] = (needle = [])"
| "py_in needle (c # cs) = (prefix needle (c # cs) \<or> py_in needle cs)"

text \<open>\<^verbatim>\<open>any(word in text for word in words)\<close>.\<close>

definition any_in :: "string list \<Rightarrow> string \<Rightarrow> bool" where
  "any_in words text = list_ex (\<lambda>word. py_in word text) words"

section \<open>Field normalizer\<close>

subsection \<open>Ingredient names\<close>

text \<open>\<^verbatim>\<open>re.sub(r'[^a-zA-Z0-9\s]', '', s)\<close>: every character outside the class is deleted,
  the others stay in place.\<close>

definition sub_special :: "string \<Rightarrow> string" where
  "sub_special s = filter (\<lambda>c. is_ascii_alnum c \<or> isspace c) s"

text \<open>The assertion \<^verbatim>\<open>\b\<close> between the character in front of a position and the character
  after it: exactly one of the two is a word character, where the two ends of the
  string count as a character that is not.\<close>

definition wordp :: "char option \<Rightarrow> bool" where
  "wordp p = (case p of None \<Rightarrow> False | Some c \<Rightarrow> is_word_char c)"

definition word_boundary :: "char option \<Rightarrow> char option \<Rightarrow> bool" where
  "word_boundary prev after = (wordp prev \<noteq> wordp after)"

definition next_char :: "string \<Rightarrow> char option" where
  "next_char s = (case s of [] \<Rightarrow> None | c # _ \<Rightarrow> Some c)"

text \<open>One alternative of the group, followed by the closing \<^verbatim>\<open>\b\<close>.\<close>

definition match_alt :: "string \<Rightarrow> string \<Rightarrow> bool" where
  "match_alt alt s =
     (prefix alt s \<and> word_boundary (Some (last alt)) (next_char (drop (length alt) s)))"

text \<open>The pattern \<^verbatim>\<open>\b(a|an|the)\b\<close> tried at one position, \<open>prev\<close> being the character
  in front of it and \<open>s\<close> the string from it on: the alternatives are tried from left
  to right, and the text of the first that succeeds is the match.\<close>

definition match_article :: "char option \<Rightarrow> string \<Rightarrow> string option" where
  "match_article prev s =
     (if \<not> word_boundary prev (next_char s) then None
      else find (\<lambda>alt. match_alt alt s) [''a'', ''an'', ''the''])"

text \<open>\<^verbatim>\<open>re.sub(r'\b(a|an|the)\b', '', s)\<close>: the scan goes from left to right; a match is
  deleted and the scan goes on behind it, a character where nothing matches is kept.\<close>

function sub_articles_from :: "char option \<Rightarrow> string \<Rightarrow> string" where
  "sub_articles_from prev [] = []"
| "sub_articles_from prev (c # cs) =
     (case match_article prev (c # cs) of
        Some m \<Rightarrow> sub_articles_from (Some (last m)) (drop (length m) (c # cs))
      | None \<Rightarrow> c # sub_articles_from (Some c) cs)"
  by pat_completeness auto
termination
proof (relation "measure (\<lambda>(prev, s). length s)")
  show "wf (measure (\<lambda>(prev, s). length s))"
    by simp
next
  fix prev :: "char option" and c :: char and cs m :: string
  assume "match_article prev (c # cs) = Some m"
  then have "m \<in> set [''a'', ''an'', ''the'']"
    by (auto simp: match_article_def find_Some_iff split: if_splits)
  then have "0 < length m"
    by auto
  then show "((Some (last m), drop (length m) (c # cs)), (prev, c # cs))
             \<in> measure (\<lambda>(prev, s). length s)"
    by simp
next
  fix prev :: "char option" and c :: char and cs :: string
  show "((Some c, cs), (prev, c # cs)) \<in> measure (\<lambda>(prev, s). length s)"
    by simp
qed

declare sub_articles_from.simps(2) [simp del]

definition sub_articles :: "string \<Rightarrow> string" where
  "sub_articles s = sub_articles_from None s"

definition clean_ingredient_name :: "string \<Rightarrow> string" where
  "clean_ingredient_name ingredient =
     (let cleaned = strip (sub_special (lower ingredient));
          cleaned = strip (sub_articles cleaned)
      in cleaned)"

subsection \<open>Time strings\<close>



definition digit_value :: "char \<Rightarrow> int" where
  "digit_value c = int (of_char c) - 48"

text \<open>The exceptions that end a call or the run.\<close>

datatype error = ValueError | OSError

text \<open>The number that a run of digits is converted to, read from the left.\<close>

definition digits_value :: "string \<Rightarrow> int" where
  "digits_value ds = foldl (\<lambda>n c. 10 * n + digit_value c) 0 ds"




section \<open>Classifier\<close>

definition determine_difficulty :: "int \<Rightarrow> int \<Rightarrow> string" where
  "determine_difficulty steps_count total_time =
     (if steps_count \<le> 5 \<and> total_time \<le> 30 then ''Easy''
      else if steps_count \<le> 10 \<and> total_time \<le> 60 then ''Medium''
      else ''Hard'')"

definition determine_meal_type :: "string list \<Rightarrow> string \<Rightarrow> string" where
  "determine_meal_type keywords name =
     (let text = lower (join '' '' keywords) @ '' '' @ lower name in
      if any_in [''breakfast'', ''pancake'', ''waffle'', ''cereal'', ''oatmeal''] text
      then ''Breakfast''
      else if any_in [''dinner'', ''main'', ''entree''] text then ''Dinner''
      else if any_in [''snack'', ''appetizer'', ''dessert''] text then ''Snack''
      else ''Lunch'')"

text \<open>The dictionary \<^verbatim>\<open>cuisines\<close> of \<^verbatim>\<open>extract_cuisine\<close>, as the list of its items in
  insertion order, which is the order in which the loop visits them.\<close>

definition cuisines_table :: "(string \<times> string list) list" where
  "cuisines_table =
     [(''indian'', [''indian'', ''curry'', ''masala'', ''tandoori'', ''biryani'']),
      (''chinese'', [''chinese'', ''szechuan'', ''cantonese'', ''wok'']),
      (''italian'', [''italian'', ''pasta'', ''pizza'', ''risotto'']),
      (''mexican'', [''mexican'', ''taco'', ''burrito'', ''enchilada'', ''salsa'']),
      (''thai'', [''thai'', ''pad thai'', ''curry thai''])]"

fun cuisine_loop :: "(string \<times> string list) list \<Rightarrow> string \<Rightarrow> string" where
  "cuisine_loop [] text = ''international''"
| "cuisine_loop ((cuisine, keywords_list) # rest) text =
     (if any_in keywords_list text then cuisine else cuisine_loop rest text)"

definition extract_cuisine :: "string list \<Rightarrow> string \<Rightarrow> string" where
  "extract_cuisine keywords name =
     (let text = lower (join '' '' keywords) @ '' '' @ lower name in
      cuisine_loop cuisines_table text)"

definition extract_dietary_tags :: "string list \<Rightarrow> string list \<Rightarrow> string list" where
  "extract_dietary_tags ingredients keywords =
     (let tags = [];
          ingredients_text = lower (join '' '' ingredients);
          keywords_text = lower (join '' '' keywords);
          meat_keywords =
            [''chicken'', ''beef'', ''pork'', ''lamb'', ''meat'', ''fish'', ''seafood''];
          has_meat = any_in meat_keywords ingredients_text;
          dairy_keywords = [''milk'', ''cheese'', ''butter'', ''cream'', ''egg''];
          has_dairy = any_in dairy_keywords ingredients_text;
          tags = (if \<not> has_meat then tags @ [''vegetarian''] else tags);
          tags = (if \<not> has_meat \<and> \<not> has_dairy then tags @ [''vegan''] else tags);
          tags = (if py_in ''gluten-free'' keywords_text \<or> py_in ''gluten free'' keywords_text
                  then tags @ [''gluten-free''] else tags);
          tags = (if py_in ''keto'' keywords_text \<or> py_in ''low-carb'' keywords_text
                     \<or> py_in ''low carb'' keywords_text
                  then tags @ [''keto''] else tags);
          tags = (if py_in ''low-carb'' keywords_text \<or> py_in ''low carb'' keywords_text
                  then tags @ [''low-carb''] else tags)
      in tags)"


section \<open>Sample generator\<close>

subsection \<open>Formatting\<close>

definition digit_char :: "nat \<Rightarrow> char" where
  "digit_char d = char_of (48 + d)"

text \<open>\<^verbatim>\<open>str(n)\<close> for a number that is not negative.\<close>

function str_nat :: "nat \<Rightarrow> string" where
  "str_nat n = (if n < 10 then [digit_char n] else str_nat (n div 10) @ [digit_char (n mod 10)])"
  by pat_completeness auto
termination
  by (relation "measure (\<lambda>n. n)") auto

declare str_nat.simps [simp del]

text \<open>The format \<^verbatim>\<open>{n:04d}\<close> for a number that is not negative: zeros are put in front
  of the digits while there are fewer than four of them.\<close>

definition format_04d :: "nat \<Rightarrow> string" where
  "format_04d n = (let digits = str_nat n in replicate (4 - length digits) CHR ''0'' @ digits)"

text \<open>\<^verbatim>\<open>str.capitalize()\<close>, exact on ASCII and on the accented letters whose capital is
  below U+0100; the script calls it on the six cuisine names only.\<close>

definition upper_char :: "char \<Rightarrow> char" where
  "upper_char c =
     (let n = (of_char c :: nat) in
      if (97 \<le> n \<and> n \<le> 122) \<or> (224 \<le> n \<and> n \<le> 254 \<and> n \<noteq> 247)
      then char_of (n - 32) else c)"

definition capitalize :: "string \<Rightarrow> string" where
  "capitalize s = (case s of [] \<Rightarrow> [] | c # cs \<Rightarrow> upper_char c # lower cs)"

subsection \<open>The random source\<close>

text \<open>
  The state of the module \<^verbatim>\<open>random\<close> is the stream of the raw draws still to come;
  every number the module hands out takes the first of them, reduces it to the range
  asked for, and leaves the rest. Every sequence of results that the calls can return
  comes from some stream. The
  script calls \<^verbatim>\<open>randint\<close> with \<open>a \<le> b\<close>, \<^verbatim>\<open>choice\<close> on lists that are not empty and
  \<^verbatim>\<open>sample\<close> with at most two of five elements, so none of them raises.
\<close>

type_synonym rng = "nat \<Rightarrow> nat"

definition advance :: "rng \<Rightarrow> rng" where
  "advance g = (\<lambda>n. g (Suc n))"

text \<open>\<^verbatim>\<open>_randbelow(n)\<close>, a number below \<open>n\<close>: the next draw, reduced. (CPython gets it
  from the generator's bits and draws again while the bits give \<open>n\<close> or more; that
  loop is below what the stream stands for.)\<close>

definition randbelow :: "nat \<Rightarrow> rng \<Rightarrow> nat \<times> rng" where
  "randbelow n g = (g 0 mod n, advance g)"

text \<open>\<^verbatim>\<open>randint(a, b)\<close> is \<^verbatim>\<open>a + _randbelow(b + 1 - a)\<close>.\<close>

definition randint :: "int \<Rightarrow> int \<Rightarrow> rng \<Rightarrow> int \<times> rng" where
  "randint a b g = (let (r, g') = randbelow (nat (b + 1 - a)) g in (a + int r, g'))"

text \<open>\<^verbatim>\<open>choice(seq)\<close> is \<^verbatim>\<open>seq[_randbelow(len(seq))]\<close>.\<close>

definition choice :: "'a list \<Rightarrow> rng \<Rightarrow> 'a \<times> rng" where
  "choice seq g = (let (j, g') = randbelow (length seq) g in (seq ! j, g'))"

text \<open>\<^verbatim>\<open>random.sample(population, k)\<close> on a short population, where it works on a copy,
  the pool: each round draws a position among the items not yet selected, takes the
  item there, and moves the last of them into the vacancy.\<close>

fun sample :: "'a list \<Rightarrow> nat \<Rightarrow> rng \<Rightarrow> 'a list \<times> rng" where
  "sample pool 0 g = ([], g)"
| "sample pool (Suc k) g =
     (let (j, g1) = randbelow (length pool) g;
          (result, g2) = sample (butlast (pool[j := last pool])) k g1
      in (pool ! j # result, g2))"

subsection \<open>Records\<close>

record ingredient_rec =
  name_str :: string
  quantity :: int
  unit_str :: string
  substitutions :: "string list"

record instruction_rec =
  step :: int
  text_str :: string
  timerDuration :: "int option"

record nutrition_rec =
  calories :: int
  protein :: int
  carbs :: int
  fats :: int
  fiber :: int
  sodium :: int
  sugar :: int

record recipe =
  id_str :: string
  title :: string
  image :: string
  description :: string
  prepTime :: int
  cookTime :: int
  totalTime :: int
  servings :: int
  difficulty :: string
  mealType :: string
  cuisine :: string
  ingredients :: "ingredient_rec list"
  instructions :: "instruction_rec list"
  nutrition :: nutrition_rec
  dietaryTags :: "string list"
  videoId :: "string option"

subsection \<open>\<^verbatim>\<open>create_sample_recipes\<close>\<close>

text \<open>The body of the loop for the index \<open>i\<close>: the draws are made in the order in which
  the script evaluates them.\<close>

definition sample_recipe :: "nat \<Rightarrow> rng \<Rightarrow> recipe \<times> rng" where
  "sample_recipe i g0 =
     (let cuisines = [''indian'', ''chinese'', ''italian'', ''mexican'', ''thai'', ''international''];
          difficulties = [''Easy'', ''Medium'', ''Hard''];
          meal_types = [''Breakfast'', ''Lunch'', ''Dinner'', ''Snack''];
          recipe_id = ''recipe_'' @ format_04d (i + 1);
          (cuisine, g1) = choice cuisines g0;
          (difficulty, g2) = choice difficulties g1;
          (meal_type, g3) = choice meal_types g2;
          (prep_time, g4) = randint 5 30 g3;
          (cook_time, g5) = randint 10 90 g4;
          total_time = prep_time + cook_time;
          (servings, g6) = randint 2 6 g5;
          (calories, g7) = randint 200 800 g6;
          (protein, g8) = randint 10 50 g7;
          (carbs, g9) = randint 20 100 g8;
          (fats, g10) = randint 5 40 g9;
          (fiber, g11) = randint 2 15 g10;
          (sodium, g12) = randint 200 1500 g11;
          (sugar, g13) = randint 2 25 g12;
          (k, g14) = randint 0 2 g13;
          (tags, g15) =
            sample [''vegetarian'', ''vegan'', ''gluten-free'', ''keto'', ''low-carb''] (nat k) g14
      in (\<lparr> id_str = recipe_id,
             title = ''Sample '' @ capitalize cuisine @ '' '' @ meal_type @ '' Recipe ''
                     @ str_nat (i + 1),
             image = ''/images/placeholder-recipe.png'',
             description = ''A delicious '' @ cuisine @ '' '' @ lower meal_type @ '' dish'',
             prepTime = prep_time,
             cookTime = cook_time,
             totalTime = total_time,
             servings = servings,
             difficulty = difficulty,
             mealType = meal_type,
             cuisine = cuisine,
             ingredients =
               [\<lparr> name_str = ''ingredient1'', quantity = 2, unit_str = ''cups'',
                   substitutions = [] \<rparr>,
                \<lparr> name_str = ''ingredient2'', quantity = 1, unit_str = ''tbsp'',
                   substitutions = [] \<rparr>,
                \<lparr> name_str = ''ingredient3'', quantity = 500, unit_str = ''g'',
                   substitutions = [] \<rparr>],
             instructions =
               [\<lparr> step = 1, text_str = ''Prepare all ingredients'', timerDuration = None \<rparr>,
                \<lparr> step = 2, text_str = ''Cook for 20 minutes'', timerDuration = Some 1200 \<rparr>,
                \<lparr> step = 3, text_str = ''Serve hot'', timerDuration = None \<rparr>],
             nutrition =
               \<lparr> calories = calories, protein = protein, carbs = carbs, fats = fats,
                  fiber = fiber, sodium = sodium, sugar = sugar \<rparr>,
             dietaryTags = tags,
             videoId = None \<rparr>,
          g15))"

text \<open>The loop \<^verbatim>\<open>for i in range(count)\<close>, appending to \<open>sample_recipes\<close>.\<close>

fun sample_loop :: "nat list \<Rightarrow> rng \<Rightarrow> recipe list \<Rightarrow> recipe list \<times> rng" where
  "sample_loop [] g sample_recipes = (sample_recipes, g)"
| "sample_loop (i # rest) g sample_recipes =
     (let (r, g') = sample_recipe i g in sample_loop rest g' (sample_recipes @ [r]))"

text \<open>\<^verbatim>\<open>range(count)\<close> is empty for a count that is not positive.\<close>

definition create_sample_recipes :: "int \<Rightarrow> rng \<Rightarrow> recipe list \<times> rng" where
  "create_sample_recipes count g = sample_loop [0..<nat count] g []"

section \<open>Statistics\<close>

text \<open>The dictionary \<^verbatim>\<open>cuisines\<close> of \<^verbatim>\<open>main\<close> is the list of its items in insertion order:
  a new key goes to the end, a key already there keeps its place.\<close>

definition dict_get :: "('k \<times> 'v) list \<Rightarrow> 'k \<Rightarrow> 'v \<Rightarrow> 'v" where
  "dict_get d k dflt = (case map_of d k of None \<Rightarrow> dflt | Some v \<Rightarrow> v)"

fun dict_set :: "('k \<times> 'v) list \<Rightarrow> 'k \<Rightarrow> 'v \<Rightarrow> ('k \<times> 'v) list" where
  "dict_set [] k v = [(k, v)]"
| "dict_set ((k', v') # d) k v = (if k' = k then (k, v) # d else (k', v') # dict_set d k v)"

fun count_cuisines :: "recipe list \<Rightarrow> (string \<times> nat) list \<Rightarrow> (string \<times> nat) list" where
  "count_cuisines [] cuisines = cuisines"
| "count_cuisines (r # rest) cuisines =
     count_cuisines rest (dict_set cuisines (cuisine r) (dict_get cuisines (cuisine r) 0 + 1))"

text \<open>\<^verbatim>\<open>sorted(cuisines.items())\<close>: the items as pairs, in the order of pairs, where strings
  are compared by code points.\<close>

definition cuisine_report :: "recipe list \<Rightarrow> (string \<times> nat) list" where
  "cuisine_report recipes = sort (count_cuisines recipes [])"

text \<open>The lines that \<^verbatim>\<open>main\<close> prints under \<^verbatim>\<open>Dataset Statistics\<close>, one string for each
  call of \<^verbatim>\<open>print\<close>.\<close>

definition statistics_lines :: "recipe list \<Rightarrow> string list" where
  "statistics_lines recipes =
     [CHR 0x0A # ''Dataset Statistics:'',
      ''Total recipes: '' @ str_nat (length recipes),
      CHR 0x0A # ''Recipes by cuisine:'']
     @ map (\<lambda>(cuisine, count). ''  '' @ cuisine @ '': '' @ str_nat count) (cuisine_report recipes)"

text \<open>\<^verbatim>\<open>main\<close>: what is printed, and the list written to the output file, or the error
  when the file cannot be opened for writing (\<open>writable\<close> is false), which ends the run
  ahead of the statistics.\<close>

definition main :: "bool \<Rightarrow> rng \<Rightarrow> string list \<times> (error + recipe list)" where
  "main writable g =
     (let (recipes, g') = create_sample_recipes 50 g;
          output_path = ''../public/data/recipes.json'';
          printed =
            [''Smart Meal Recipe Preprocessing'',
             replicate 50 CHR ''='',
             CHR 0x0A # ''Creating sample recipes for initial testing...'',
             CHR 0x0A # ''Generated '' @ str_nat (length recipes) @ '' sample recipes'']
      in if \<not> writable then (printed, Inl OSError)
         else (printed
               @ [CHR 0x0A # ''Recipes saved to: '' @ output_path,
                  CHR 0x0A # ''Preprocessing complete!'']
               @ statistics_lines recipes,
               Inr recipes))"

section \<open>The specification's words\<close>


text \<open>The number that a run of decimal digits denotes: the digit at position \<open>i\<close> counts
  ten to the number of digits behind it.\<close>

definition decimal_value :: "string \<Rightarrow> int" where
  "decimal_value ds = (\<Sum>i<length ds. digit_value (ds ! i) * 10 ^ (length ds - 1 - i))"

text \<open>The words of a string: its maximal runs of word characters, from left to right.
  The first argument is the word being read.\<close>

fun words_from :: "string \<Rightarrow> string \<Rightarrow> string list" where
  "words_from word [] = (if word = [] then [] else [word])"
| "words_from word (c # cs) =
     (if is_word_char c then words_from (word @ [c]) cs
      else if word = [] then words_from [] cs
      else word # words_from [] cs)"

definition words_of :: "string \<Rightarrow> string list" where
  "words_of s = words_from [] s"

text \<open>The lowercase letters a to z and the digits 0 to 9.\<close>

definition is_lower_alnum :: "char \<Rightarrow> bool" where
  "is_lower_alnum c =
     (let n = (of_char c :: nat) in (97 \<le> n \<and> n \<le> 122) \<or> (48 \<le> n \<and> n \<le> 57))"

text \<open>A stream of draws for examples.\<close>

definition zero_rng :: rng where
  "zero_rng = (\<lambda>n. 0)"

section \<open>Substring search\<close>

lemma py_in_sublist: "py_in needle hay \<longleftrightarrow> sublist needle hay"
proof (induction hay)
  case Nil
  show ?case by simp
next
  case (Cons c cs)
  show ?case
  proof (cases needle)
    case Nil
    then show ?thesis by simp
  next
    case (Cons x xs)
    with Cons.IH show ?thesis by (simp add: sublist_Cons_right)
  qed
qed

lemma any_in_sublist: "any_in words text \<longleftrightarrow> (\<exists>w\<in>set words. sublist w text)"
  by (simp add: any_in_def list_ex_iff py_in_sublist)

section \<open>Difficulty\<close>

text \<open>
  C4. For every pair of integers, \<open>determine_difficulty\<close> is Easy when there are at most
  5 steps and at most 30 minutes, otherwise Medium when there are at most 10 steps and
  at most 60 minutes, otherwise Hard; 12 steps and 90 minutes are Hard.
\<close>

theorem determine_difficulty_thresholds:
  "(steps \<le> 5 \<and> minutes \<le> 30 \<longrightarrow> determine_difficulty steps minutes = ''Easy'')
   \<and> (\<not> (steps \<le> 5 \<and> minutes \<le> 30) \<and> steps \<le> 10 \<and> minutes \<le> 60
        \<longrightarrow> determine_difficulty steps minutes = ''Medium'')
   \<and> (\<not> (steps \<le> 5 \<and> minutes \<le> 30) \<and> \<not> (steps \<le> 10 \<and> minutes \<le> 60)
        \<longrightarrow> determine_difficulty steps minutes = ''Hard'')
   \<and> determine_difficulty 12 90 = ''Hard''"
  by (simp add: determine_difficulty_def)

theorem determine_difficulty_thresholds_witness:
  "determine_difficulty 3 20 = ''Easy'' \<and> determine_difficulty 3 45 = ''Medium''
   \<and> determine_difficulty 7 20 = ''Medium'' \<and> determine_difficulty 11 20 = ''Hard''
   \<and> determine_difficulty 3 61 = ''Hard''"
  using determine_difficulty_thresholds [of 3 20] determine_difficulty_thresholds [of 3 45]
    determine_difficulty_thresholds [of 7 20] determine_difficulty_thresholds [of 11 20]
    determine_difficulty_thresholds [of 3 61]
  by simp

section \<open>Meal type\<close>

text \<open>
  C5. \<open>determine_meal_type\<close> searches one text, the keywords joined by spaces and
  lowercased, a space, and the lowercased name. The keyword sets are tried in the order
  Breakfast, Dinner, Snack, the first set with a keyword occurring in the text decides,
  and Lunch is the result when none occurs. A keyword list with \<^verbatim>\<open>breakfast special\<close>
  gives Breakfast, and \<^verbatim>\<open>Grilled Chicken\<close> with no keywords gives Lunch.
\<close>

theorem determine_meal_type_priority:
  "determine_meal_type kws name =
     (let text = lower (join '' '' kws) @ '' '' @ lower name;
          hit = (\<lambda>ws. \<exists>w\<in>set ws. sublist w text)
      in if hit [''breakfast'', ''pancake'', ''waffle'', ''cereal'', ''oatmeal''] then ''Breakfast''
         else if hit [''dinner'', ''main'', ''entree''] then ''Dinner''
         else if hit [''snack'', ''appetizer'', ''dessert''] then ''Snack''
         else ''Lunch'')
   \<and> determine_meal_type [''breakfast special''] ''Morning Oats'' = ''Breakfast''
   \<and> determine_meal_type [] ''Grilled Chicken'' = ''Lunch''"
proof (intro conjI)
  show "determine_meal_type kws name =
     (let text = lower (join '' '' kws) @ '' '' @ lower name;
          hit = (\<lambda>ws. \<exists>w\<in>set ws. sublist w text)
      in if hit [''breakfast'', ''pancake'', ''waffle'', ''cereal'', ''oatmeal''] then ''Breakfast''
         else if hit [''dinner'', ''main'', ''entree''] then ''Dinner''
         else if hit [''snack'', ''appetizer'', ''dessert''] then ''Snack''
         else ''Lunch'')"
    unfolding determine_meal_type_def Let_def any_in_sublist ..
  show "determine_meal_type [''breakfast special''] ''Morning Oats'' = ''Breakfast''"
    by code_simp
  show "determine_meal_type [] ''Grilled Chicken'' = ''Lunch''"
    by code_simp
qed

theorem determine_meal_type_priority_witness:
  "determine_meal_type [''Quick SNACK''] ''Main course'' = ''Dinner''"
proof -
  have "determine_meal_type [''Quick SNACK''] ''Main course'' =
     (let text = lower (join '' '' [''Quick SNACK'']) @ '' '' @ lower ''Main course'';
          hit = (\<lambda>ws. \<exists>w\<in>set ws. sublist w text)
      in if hit [''breakfast'', ''pancake'', ''waffle'', ''cereal'', ''oatmeal''] then ''Breakfast''
         else if hit [''dinner'', ''main'', ''entree''] then ''Dinner''
         else if hit [''snack'', ''appetizer'', ''dessert''] then ''Snack''
         else ''Lunch'')"
    using determine_meal_type_priority [of "[''Quick SNACK'']" "''Main course''"] by (rule conjunct1)
  also have "\<dots> = ''Dinner''"
    by code_simp
  finally show ?thesis .
qed

section \<open>Cuisine\<close>

text \<open>
  C6. \<open>extract_cuisine\<close> searches the same text and tries the cuisines in the order
  indian, chinese, italian, mexican, thai: the first cuisine one of whose keywords
  occurs in the text is returned, and \<^verbatim>\<open>international\<close> when there is none.
  \<^verbatim>\<open>Chicken Tikka Masala\<close> with no keywords is indian.
\<close>

theorem extract_cuisine_order:
  "extract_cuisine kws name =
     (let text = lower (join '' '' kws) @ '' '' @ lower name;
          hit = (\<lambda>ws. \<exists>w\<in>set ws. sublist w text)
      in if hit [''indian'', ''curry'', ''masala'', ''tandoori'', ''biryani''] then ''indian''
         else if hit [''chinese'', ''szechuan'', ''cantonese'', ''wok''] then ''chinese''
         else if hit [''italian'', ''pasta'', ''pizza'', ''risotto''] then ''italian''
         else if hit [''mexican'', ''taco'', ''burrito'', ''enchilada'', ''salsa''] then ''mexican''
         else if hit [''thai'', ''pad thai'', ''curry thai''] then ''thai''
         else ''international'')
   \<and> extract_cuisine [] ''Chicken Tikka Masala'' = ''indian''"
proof (intro conjI)
  show "extract_cuisine kws name =
     (let text = lower (join '' '' kws) @ '' '' @ lower name;
          hit = (\<lambda>ws. \<exists>w\<in>set ws. sublist w text)
      in if hit [''indian'', ''curry'', ''masala'', ''tandoori'', ''biryani''] then ''indian''
         else if hit [''chinese'', ''szechuan'', ''cantonese'', ''wok''] then ''chinese''
         else if hit [''italian'', ''pasta'', ''pizza'', ''risotto''] then ''italian''
         else if hit [''mexican'', ''taco'', ''burrito'', ''enchilada'', ''salsa''] then ''mexican''
         else if hit [''thai'', ''pad thai'', ''curry thai''] then ''thai''
         else ''international'')"
    unfolding extract_cuisine_def cuisines_table_def Let_def cuisine_loop.simps any_in_sublist ..
  show "extract_cuisine [] ''Chicken Tikka Masala'' = ''indian''"
    by code_simp
qed

theorem extract_cuisine_order_witness:
  "extract_cuisine [''Pasta''] ''Wok salsa'' = ''chinese''"
proof -
  have "extract_cuisine [''Pasta''] ''Wok salsa'' =
     (let text = lower (join '' '' [''Pasta'']) @ '' '' @ lower ''Wok salsa'';
          hit = (\<lambda>ws. \<exists>w\<in>set ws. sublist w text)
      in if hit [''indian'', ''curry'', ''masala'', ''tandoori'', ''biryani''] then ''indian''
         else if hit [''chinese'', ''szechuan'', ''cantonese'', ''wok''] then ''chinese''
         else if hit [''italian'', ''pasta'', ''pizza'', ''risotto''] then ''italian''
         else if hit [''mexican'', ''taco'', ''burrito'', ''enchilada'', ''salsa''] then ''mexican''
         else if hit [''thai'', ''pad thai'', ''curry thai''] then ''thai''
         else ''international'')"
    using extract_cuisine_order [of "[''Pasta'']" "''Wok salsa''"] by (rule conjunct1)
  also have "\<dots> = ''chinese''"
    by code_simp
  finally show ?thesis .
qed

section \<open>Dietary tags\<close>

lemma tags_chain:
  fixes a b c d e :: bool
  shows "(let tags = (if a then t0 @ [v1] else t0);
              tags = (if b then tags @ [v2] else tags);
              tags = (if c then tags @ [v3] else tags);
              tags = (if d then tags @ [v4] else tags);
              tags = (if e then tags @ [v5] else tags)
          in tags)
         = t0 @ (if a then [v1] else []) @ (if b then [v2] else []) @ (if c then [v3] else [])
           @ (if d then [v4] else []) @ (if e then [v5] else [])"
  by (cases a; cases b; cases c; cases d; cases e) (simp_all only: Let_def if_True if_False append_Nil2 append_assoc append_Cons append_Nil)

lemma tags_shape:
  "extract_dietary_tags ings kws =
     (let it = lower (join '' '' ings); kt = lower (join '' '' kws);
          meat = (\<exists>w\<in>set [''chicken'', ''beef'', ''pork'', ''lamb'', ''meat'', ''fish'', ''seafood'']. sublist w it);
          dairy = (\<exists>w\<in>set [''milk'', ''cheese'', ''butter'', ''cream'', ''egg'']. sublist w it);
          lowcarb = (sublist ''low-carb'' kt \<or> sublist ''low carb'' kt)
      in (if \<not> meat then [''vegetarian''] else [])
         @ (if \<not> meat \<and> \<not> dairy then [''vegan''] else [])
         @ (if sublist ''gluten-free'' kt \<or> sublist ''gluten free'' kt then [''gluten-free''] else [])
         @ (if sublist ''keto'' kt \<or> lowcarb then [''keto''] else [])
         @ (if lowcarb then [''low-carb''] else []))"
proof -
  define it where "it = lower (join '' '' ings)"
  define kt where "kt = lower (join '' '' kws)"
  define a where "a \<longleftrightarrow> \<not> any_in [''chicken'', ''beef'', ''pork'', ''lamb'', ''meat'', ''fish'', ''seafood''] it"
  define b where "b \<longleftrightarrow> a \<and> \<not> any_in [''milk'', ''cheese'', ''butter'', ''cream'', ''egg''] it"
  define c where "c \<longleftrightarrow> py_in ''gluten-free'' kt \<or> py_in ''gluten free'' kt"
  define d where "d \<longleftrightarrow> py_in ''keto'' kt \<or> py_in ''low-carb'' kt \<or> py_in ''low carb'' kt"
  define e where "e \<longleftrightarrow> py_in ''low-carb'' kt \<or> py_in ''low carb'' kt"
  have "extract_dietary_tags ings kws =
     (let tags = (if a then [] @ [''vegetarian''] else []);
          tags = (if b then tags @ [''vegan''] else tags);
          tags = (if c then tags @ [''gluten-free''] else tags);
          tags = (if d then tags @ [''keto''] else tags);
          tags = (if e then tags @ [''low-carb''] else tags)
      in tags)"
    unfolding extract_dietary_tags_def a_def b_def c_def d_def e_def it_def kt_def
    by (simp only: Let_def)
  also have "\<dots> = [] @ (if a then [''vegetarian''] else []) @ (if b then [''vegan''] else [])
      @ (if c then [''gluten-free''] else []) @ (if d then [''keto''] else [])
      @ (if e then [''low-carb''] else [])"
    by (rule tags_chain)
  finally show ?thesis
    unfolding a_def b_def c_def d_def e_def it_def kt_def any_in_sublist py_in_sublist Let_def
    by (simp only: append_Nil)
qed


lemma flags_generic:
  fixes a b c d e :: bool
  assumes dist: "distinct [v1, v2, v3, v4, v5 :: 'a]"
  defines "tags \<equiv> (if a then [v1] else []) @ (if b then [v2] else [])
         @ (if c then [v3] else []) @ (if d then [v4] else []) @ (if e then [v5] else [])"
  shows "v1 \<in> set tags \<longleftrightarrow> a" "v2 \<in> set tags \<longleftrightarrow> b" "v3 \<in> set tags \<longleftrightarrow> c"
    "v4 \<in> set tags \<longleftrightarrow> d" "v5 \<in> set tags \<longleftrightarrow> e" "distinct tags"
    "subseq tags [v1, v2, v3, v4, v5]"
proof -
  have ne: "v1 \<noteq> v2" "v1 \<noteq> v3" "v1 \<noteq> v4" "v1 \<noteq> v5" "v2 \<noteq> v3" "v2 \<noteq> v4" "v2 \<noteq> v5"
    "v3 \<noteq> v4" "v3 \<noteq> v5" "v4 \<noteq> v5"
    using dist by simp_all
  show "v1 \<in> set tags \<longleftrightarrow> a"
    unfolding tags_def using ne by simp
  show "v2 \<in> set tags \<longleftrightarrow> b"
    unfolding tags_def using ne by simp
  show "v3 \<in> set tags \<longleftrightarrow> c"
    unfolding tags_def using ne by simp
  show "v4 \<in> set tags \<longleftrightarrow> d"
    unfolding tags_def using ne by simp
  show "v5 \<in> set tags \<longleftrightarrow> e"
    unfolding tags_def using ne by simp
  show "distinct tags"
    unfolding tags_def using ne by simp
  show "subseq tags [v1, v2, v3, v4, v5]"
    unfolding tags_def by (cases a; cases b; cases c; cases d; cases e; simp)
qed

lemma tag_names_distinct:
  "distinct [''vegetarian'', ''vegan'', ''gluten-free'', ''keto'', ''low-carb'']"
  by simp



text \<open>
  C9. For all ingredients and keywords the result of \<open>extract_dietary_tags\<close> has no
  duplicates and is a subsequence of \<^verbatim>\<open>vegetarian\<close>, \<^verbatim>\<open>vegan\<close>, \<^verbatim>\<open>gluten-free\<close>,
  \<^verbatim>\<open>keto\<close>, \<^verbatim>\<open>low-carb\<close>; when it contains \<^verbatim>\<open>vegan\<close> it contains \<^verbatim>\<open>vegetarian\<close>.
\<close>

theorem extract_dietary_tags_subsequence:
  "distinct (extract_dietary_tags ings kws)
   \<and> subseq (extract_dietary_tags ings kws)
        [''vegetarian'', ''vegan'', ''gluten-free'', ''keto'', ''low-carb'']
   \<and> (''vegan'' \<in> set (extract_dietary_tags ings kws)
        \<longrightarrow> ''vegetarian'' \<in> set (extract_dietary_tags ings kws))"
proof -
  obtain a b c d e :: bool where
    shape: "extract_dietary_tags ings kws = (if a then [''vegetarian''] else [])
      @ (if a \<and> b then [''vegan''] else []) @ (if c then [''gluten-free''] else [])
      @ (if d then [''keto''] else []) @ (if e then [''low-carb''] else [])"
    using tags_shape [of ings kws, unfolded Let_def] by blast
  note f = flags_generic [OF tag_names_distinct, of a "a \<and> b" c d e, folded shape]
  from f show ?thesis by blast
qed

theorem extract_dietary_tags_subsequence_witness:
  "''vegan'' \<in> set (extract_dietary_tags [''lentils''] [''Keto''])
   \<and> ''vegetarian'' \<in> set (extract_dietary_tags [''lentils''] [''Keto''])"
proof -
  have "''vegan'' \<in> set (extract_dietary_tags [''lentils''] [''Keto''])"
    by code_simp
  with extract_dietary_tags_subsequence [of "[''lentils'']" "[''Keto'']"]
  show ?thesis by blast
qed

section \<open>Time strings\<close>





lemma decimal_value_snoc:
  "decimal_value (ds @ [d]) = 10 * decimal_value ds + digit_value d"
proof -
  have "(\<Sum>i<length ds. digit_value ((ds @ [d]) ! i) * 10 ^ (length ds - i))
        = (\<Sum>i<length ds. 10 * (digit_value (ds ! i) * 10 ^ (length ds - 1 - i)))"
  proof (rule sum.cong)
    fix i assume "i \<in> {..<length ds}"
    then have i: "i < length ds" by simp
    then have "length ds - i = Suc (length ds - 1 - i)" by simp
    with i show "digit_value ((ds @ [d]) ! i) * 10 ^ (length ds - i)
        = 10 * (digit_value (ds ! i) * 10 ^ (length ds - 1 - i))"
      by (simp add: nth_append)
  qed simp
  then show ?thesis
    by (simp add: decimal_value_def sum_distrib_left)
qed

lemma digits_value_decimal: "digits_value ds = decimal_value ds"
proof (induction ds rule: rev_induct)
  case Nil
  show ?case by (simp add: digits_value_def decimal_value_def)
next
  case (snoc d ds)
  then show ?case by (simp add: digits_value_def decimal_value_snoc)
qed







section \<open>Cuisine statistics\<close>

lemma map_of_dict_set: "map_of (dict_set d k v) = (map_of d)(k \<mapsto> v)"
  by (induction d k v rule: dict_set.induct) (auto simp: fun_eq_iff)

lemma keys_dict_set:
  "map fst (dict_set d k v) = (if k \<in> set (map fst d) then map fst d else map fst d @ [k])"
  by (induction d k v rule: dict_set.induct) auto

lemma sum_dict_set:
  "sum_list (map snd (dict_set d k (dict_get d k 0 + n))) = sum_list (map snd d) + (n :: nat)"
  by (induction d k "dict_get d k 0 + n" rule: dict_set.induct) (auto simp: dict_get_def)

lemma distinct_dict_set:
  "distinct (map fst d) \<Longrightarrow> distinct (map fst (dict_set d k v))"
  by (simp add: keys_dict_set)

lemma sum_count_cuisines:
  "sum_list (map snd (count_cuisines rs d)) = sum_list (map snd d) + length rs"
  by (induction rs arbitrary: d) (simp_all add: sum_dict_set [where n = 1, simplified])

lemma distinct_count_cuisines:
  "distinct (map fst d) \<Longrightarrow> distinct (map fst (count_cuisines rs d))"
  by (induction rs arbitrary: d) (simp_all add: distinct_dict_set)

lemma map_of_count_cuisines:
  "map_of (count_cuisines rs d) c =
     (if \<exists>r\<in>set rs. cuisine r = c
      then Some (dict_get d c 0 + length (filter (\<lambda>r. cuisine r = c) rs))
      else map_of d c)"
proof (induction rs arbitrary: d)
  case Nil
  show ?case by simp
next
  case (Cons r rs)
  show ?case
    by (auto simp: Cons.IH map_of_dict_set dict_get_def split: option.splits)
qed

lemma sum_list_insort:
  "sum_list (map f (insort x xs)) = f x + (sum_list (map f xs) :: nat)"
  by (induction xs) auto

lemma sum_list_sort:
  "sum_list (map f (sort xs)) = (sum_list (map f xs) :: nat)"
  by (induction xs) (simp_all add: sum_list_insort)

lemma sorted_map_fst:
  fixes xs :: "('a :: linorder \<times> 'b :: linorder) list"
  shows "sorted xs \<Longrightarrow> sorted (map fst xs)"
  by (induction xs) (auto simp: less_eq_prod_def)

lemma distinct_keys_sort:
  fixes xs :: "('a :: linorder \<times> 'b :: linorder) list"
  shows "distinct (map fst xs) \<Longrightarrow> distinct (map fst (sort xs))"
  by (simp add: distinct_map)

text \<open>
  C8. For every list of recipes, and so for every generated collection, the cuisine
  report partitions it: the counts of the report add up to the number of recipes, each
  count is the number of recipes of its cuisine, the cuisines of the report are those
  of the recipes, and the report, which is printed line by line, lists the cuisines in
  strictly ascending alphabetical order.
\<close>

theorem cuisine_report_partition:
  "sum_list (map snd (cuisine_report recipes)) = length recipes
   \<and> sorted_wrt (<) (map fst (cuisine_report recipes))
   \<and> set (map fst (cuisine_report recipes)) = cuisine ` set recipes
   \<and> (\<forall>(c, n)\<in>set (cuisine_report recipes). n = length (filter (\<lambda>r. cuisine r = c) recipes))
   \<and> drop 3 (statistics_lines recipes)
       = map (\<lambda>(c, n). ''  '' @ c @ '': '' @ str_nat n) (cuisine_report recipes)"
proof (intro conjI)
  let ?d = "count_cuisines recipes []"
  have dist: "distinct (map fst ?d)"
    by (rule distinct_count_cuisines) simp
  show "sum_list (map snd (cuisine_report recipes)) = length recipes"
    by (simp add: cuisine_report_def sum_list_sort sum_count_cuisines)
  have "sorted (map fst (cuisine_report recipes))"
    unfolding cuisine_report_def by (rule sorted_map_fst) simp
  moreover have "distinct (map fst (cuisine_report recipes))"
    unfolding cuisine_report_def using dist by (rule distinct_keys_sort)
  ultimately show "sorted_wrt (<) (map fst (cuisine_report recipes))"
    by (simp add: strict_sorted_iff)
  have mem: "(c, n) \<in> set ?d \<longleftrightarrow>
      (\<exists>r\<in>set recipes. cuisine r = c) \<and> n = length (filter (\<lambda>r. cuisine r = c) recipes)" for c n
  proof -
    have "(c, n) \<in> set ?d \<longleftrightarrow> map_of ?d c = Some n"
      using dist by simp
    also have "\<dots> \<longleftrightarrow> (\<exists>r\<in>set recipes. cuisine r = c)
        \<and> n = length (filter (\<lambda>r. cuisine r = c) recipes)"
      by (auto simp: map_of_count_cuisines dict_get_def)
    finally show ?thesis .
  qed
  show "set (map fst (cuisine_report recipes)) = cuisine ` set recipes"
  proof -
    have "set (map fst ?d) = cuisine ` set recipes"
      using mem by (auto simp: image_iff) force
    then show ?thesis
      by (simp add: cuisine_report_def)
  qed
  show "\<forall>(c, n)\<in>set (cuisine_report recipes). n = length (filter (\<lambda>r. cuisine r = c) recipes)"
    using mem by (auto simp: cuisine_report_def)
  show "drop 3 (statistics_lines recipes)
       = map (\<lambda>(c, n). ''  '' @ c @ '': '' @ str_nat n) (cuisine_report recipes)"
    by (simp add: statistics_lines_def)
qed


theorem cuisine_report_partition_witness:
  "(''indian'', 4) \<in> set (cuisine_report (fst (create_sample_recipes 4 zero_rng)))
   \<and> length (filter (\<lambda>r. cuisine r = ''indian'') (fst (create_sample_recipes 4 zero_rng))) = 4"
proof -
  have "(''indian'', 4) \<in> set (cuisine_report (fst (create_sample_recipes 4 zero_rng)))"
    by code_simp
  with cuisine_report_partition [of "fst (create_sample_recipes 4 zero_rng)"]
  show ?thesis by fastforce
qed

section \<open>Sample recipes\<close>

lemma digit_char_props:
  assumes "d < 10"
  shows "is_digit (digit_char d)" "digit_value (digit_char d) = int d"
    "digit_char d = CHR ''0'' \<longleftrightarrow> d = 0"
proof -
  from assms have c: "of_char (digit_char d) = 48 + d"
    by (simp add: digit_char_def)
  show "is_digit (digit_char d)"
    using assms by (simp add: is_digit_def c)
  show "digit_value (digit_char d) = int d"
    by (simp add: digit_value_def c)
  have "digit_char d = CHR ''0'' \<longleftrightarrow> (of_char (digit_char d) :: nat) = of_char CHR ''0''"
    by (simp only: of_char_eq_iff)
  then show "digit_char d = CHR ''0'' \<longleftrightarrow> d = 0"
    by (simp add: c)
qed

lemma str_nat_digits: "\<forall>c\<in>set (str_nat n). is_digit c"
proof (induction n rule: str_nat.induct)
  case (1 n)
  show ?case
  proof (cases "n < 10")
    case True
    then show ?thesis
      by (subst str_nat.simps) (simp add: digit_char_props)
  next
    case False
    with 1 show ?thesis
      by (subst str_nat.simps) (simp add: digit_char_props)
  qed
qed

lemma decimal_value_single: "decimal_value [c] = digit_value c"
  by (simp add: decimal_value_def)

lemma decimal_str_nat: "decimal_value (str_nat n) = int n"
proof (induction n rule: str_nat.induct)
  case (1 n)
  show ?case
  proof (cases "n < 10")
    case True
    then show ?thesis
      by (subst str_nat.simps) (simp add: decimal_value_single digit_char_props)
  next
    case False
    with 1 have "decimal_value (str_nat (n div 10)) = int (n div 10)" by simp
    moreover have "10 * int (n div 10) + int (n mod 10) = int n"
      by (simp add: zdiv_int zmod_int)
    ultimately show ?thesis
      using False by (subst str_nat.simps) (simp add: decimal_value_snoc digit_char_props)
  qed
qed

lemma str_nat_nonempty: "str_nat n \<noteq> []"
  by (subst str_nat.simps) simp

lemma length_str_nat_le: "0 < k \<Longrightarrow> n < 10 ^ k \<Longrightarrow> length (str_nat n) \<le> k"
proof (induction n arbitrary: k rule: str_nat.induct)
  case (1 n)
  show ?case
  proof (cases "n < 10")
    case True
    with 1 show ?thesis
      by (subst str_nat.simps) simp
  next
    case False
    obtain j where k: "k = Suc j"
      using 1(2) by (cases k) auto
    with False 1(3) have j: "0 < j"
      by (cases j) auto
    from 1(3) k have "n < 10 ^ j * 10"
      by simp
    then have "n div 10 < 10 ^ j"
      by (rule less_mult_imp_div_less)
    with 1(1) [OF False j] have "length (str_nat (n div 10)) \<le> j" .
    with False k show ?thesis
      by (subst str_nat.simps) simp
  qed
qed

lemma length_str_nat_gt: "10 ^ k \<le> n \<Longrightarrow> k < length (str_nat n)"
proof (induction n arbitrary: k rule: str_nat.induct)
  case (1 n)
  show ?case
  proof (cases "n < 10")
    case True
    have "k = 0"
    proof (cases k)
      case 0
      then show ?thesis .
    next
      case (Suc j)
      have "(1::nat) \<le> 10 ^ j" by simp
      with Suc 1(2) True show ?thesis by simp
    qed
    then show ?thesis
      using str_nat_nonempty [of n] by simp
  next
    case False
    show ?thesis
    proof (cases k)
      case 0
      then show ?thesis
        using str_nat_nonempty [of n] by simp
    next
      case (Suc j)
      with 1(2) have "10 ^ j \<le> n div 10"
        by simp
      with 1(1) [OF False] have "j < length (str_nat (n div 10))" .
      with False Suc show ?thesis
        by (subst str_nat.simps) simp
    qed
  qed
qed

lemma hd_str_nat: "0 < n \<Longrightarrow> hd (str_nat n) \<noteq> CHR ''0''"
proof (induction n rule: str_nat.induct)
  case (1 n)
  show ?case
  proof (cases "n < 10")
    case True
    with 1(2) show ?thesis
      by (subst str_nat.simps) (simp add: digit_char_props)
  next
    case False
    then have "0 < n div 10" by simp
    with 1(1) [OF False] have "hd (str_nat (n div 10)) \<noteq> CHR ''0''" .
    with False show ?thesis
      by (subst str_nat.simps) (simp add: str_nat_nonempty)
  qed
qed

lemma decimal_value_zeros: "decimal_value (replicate k CHR ''0'' @ ds) = decimal_value ds"
proof (induction k)
  case 0
  show ?case by simp
next
  case (Suc k)
  have "digits_value (CHR ''0'' # replicate k CHR ''0'' @ ds)
      = digits_value (replicate k CHR ''0'' @ ds)"
    unfolding digits_value_def by (simp add: digit_value_def)
  with Suc show ?case
    by (simp add: digits_value_decimal)
qed

lemma format_04d_digits: "\<forall>c\<in>set (format_04d n). is_digit c"
proof -
  have "is_digit CHR ''0''"
    by (simp add: is_digit_def)
  with str_nat_digits [of n] show ?thesis
    unfolding format_04d_def Let_def by auto
qed

lemma format_04d_value: "decimal_value (format_04d n) = int n"
  unfolding format_04d_def Let_def by (simp only: decimal_value_zeros decimal_str_nat)

lemma format_04d_length: "4 \<le> length (format_04d n)"
  unfolding format_04d_def Let_def by simp

lemma format_04d_short:
  assumes "n \<le> 9999"
  shows "length (format_04d n) = 4"
proof -
  have "(10::nat) ^ 4 = 10000"
    by simp
  with assms have "n < 10 ^ 4"
    by linarith
  moreover have "(0::nat) < 4"
    by simp
  ultimately have "length (str_nat n) \<le> 4"
    by (rule length_str_nat_le [rotated])
  then show ?thesis
    unfolding format_04d_def Let_def by simp
qed

lemma format_04d_long:
  assumes "9999 < n"
  shows "format_04d n = str_nat n" "4 < length (format_04d n)" "hd (format_04d n) \<noteq> CHR ''0''"
proof -
  have "(10::nat) ^ 4 = 10000"
    by simp
  with assms have "10 ^ 4 \<le> n"
    by linarith
  then have len: "4 < length (str_nat n)"
    by (rule length_str_nat_gt)
  then show eq: "format_04d n = str_nat n"
    unfolding format_04d_def Let_def by simp
  from len show "4 < length (format_04d n)"
    by (simp only: eq)
  from assms have "0 < n"
    by linarith
  then show "hd (format_04d n) \<noteq> CHR ''0''"
    unfolding eq by (rule hd_str_nat)
qed

lemma format_04d_inj:
  assumes "format_04d m = format_04d n"
  shows "m = n"
proof -
  have "int m = decimal_value (format_04d m)"
    by (simp only: format_04d_value)
  also have "\<dots> = int n"
    by (simp only: assms format_04d_value)
  finally show ?thesis
    by simp
qed

lemma sample_recipe_fields:
  "id_str (fst (sample_recipe i g)) = ''recipe_'' @ format_04d (i + 1)"
  "totalTime (fst (sample_recipe i g))
     = prepTime (fst (sample_recipe i g)) + cookTime (fst (sample_recipe i g))"
  by (simp_all add: sample_recipe_def Let_def split_beta)

lemma sample_loop_ids:
  "map id_str (fst (sample_loop idxs g acc))
     = map id_str acc @ map (\<lambda>i. ''recipe_'' @ format_04d (i + 1)) idxs"
  by (induction idxs arbitrary: g acc) (simp_all add: split_beta sample_recipe_fields)

lemma sample_loop_times:
  "\<forall>r\<in>set acc. totalTime r = prepTime r + cookTime r \<Longrightarrow>
   \<forall>r\<in>set (fst (sample_loop idxs g acc)). totalTime r = prepTime r + cookTime r"
proof (induction idxs arbitrary: g acc)
  case Nil
  then show ?case by simp
next
  case (Cons i idxs)
  have "\<forall>r\<in>set (acc @ [fst (sample_recipe i g)]). totalTime r = prepTime r + cookTime r"
    using Cons.prems by (simp add: sample_recipe_fields)
  then have "\<forall>r\<in>set (fst (sample_loop idxs (snd (sample_recipe i g))
      (acc @ [fst (sample_recipe i g)]))). totalTime r = prepTime r + cookTime r"
    by (rule Cons.IH)
  then show ?case
    by (simp add: split_beta)
qed

lemma create_sample_recipes_id_list:
  "map id_str (fst (create_sample_recipes count g))
     = map (\<lambda>i. ''recipe_'' @ format_04d (i + 1)) [0..<nat count]"
  by (simp add: create_sample_recipes_def sample_loop_ids)


lemma create_sample_recipes_nth:
  assumes "i < nat count"
  shows "id_str (fst (create_sample_recipes count g) ! i) = ''recipe_'' @ format_04d (i + 1)"
proof -
  have "length (map id_str (fst (create_sample_recipes count g))) = nat count"
    by (simp only: create_sample_recipes_id_list) simp
  with assms have "id_str (fst (create_sample_recipes count g) ! i)
      = map id_str (fst (create_sample_recipes count g)) ! i"
    by simp
  also have "\<dots> = ''recipe_'' @ format_04d (i + 1)"
    using assms by (simp only: create_sample_recipes_id_list) simp
  finally show ?thesis .
qed

text \<open>
  C7, as the code has it. For every count and every stream of draws, the generator
  yields \<open>nat count\<close> records (none for a count below 1); the id of the record of
  index \<open>i\<close> is \<^verbatim>\<open>recipe_\<close> followed by \<open>format_04d (i + 1)\<close>, so the ids are
  pairwise distinct and in generation order; and \<open>totalTime = prepTime + cookTime\<close>
  in every record. The numeral \<open>format_04d n\<close> consists of decimal digits, denotes
  \<open>n\<close>, and is padded with zeros to a width of at least four: it has exactly four
  digits up to 9999, and more than four, with no zero in front, from 10000 on.
\<close>

theorem create_sample_recipes_ids:
  "(let recipes = fst (create_sample_recipes count g) in
      length recipes = nat count
      \<and> map id_str recipes = map (\<lambda>i. ''recipe_'' @ format_04d (i + 1)) [0..<nat count]
      \<and> distinct (map id_str recipes)
      \<and> (\<forall>r\<in>set recipes. totalTime r = prepTime r + cookTime r))
   \<and> (\<forall>c\<in>set (format_04d n). is_digit c)
   \<and> decimal_value (format_04d n) = int n
   \<and> 4 \<le> length (format_04d n)
   \<and> (n \<le> 9999 \<longrightarrow> length (format_04d n) = 4)
   \<and> (9999 < n \<longrightarrow> 4 < length (format_04d n) \<and> hd (format_04d n) \<noteq> CHR ''0'')"
proof -
  let ?recipes = "fst (create_sample_recipes count g)"
  let ?ids = "map (\<lambda>i. ''recipe_'' @ format_04d (i + 1)) [0..<nat count]"
  have ids: "map id_str ?recipes = ?ids"
    by (rule create_sample_recipes_id_list)
  have "length (map id_str ?recipes) = length ?ids"
    by (simp only: ids)
  then have len: "length ?recipes = nat count"
    by simp
  have "inj_on (\<lambda>i. ''recipe_'' @ format_04d (i + 1)) (set [0..<nat count])"
    by (rule inj_onI) (auto dest: format_04d_inj)
  then have "distinct ?ids"
    by (simp add: distinct_map)
  then have dist: "distinct (map id_str ?recipes)"
    by (simp only: ids)
  have times: "\<forall>r\<in>set ?recipes. totalTime r = prepTime r + cookTime r"
    unfolding create_sample_recipes_def by (rule sample_loop_times) simp
  from len ids dist times format_04d_digits [of n] format_04d_value [of n]
    format_04d_length [of n] format_04d_short [of n] format_04d_long(2,3) [of n]
  show ?thesis
    unfolding Let_def by blast
qed

theorem create_sample_recipes_ids_witness:
  "map id_str (fst (create_sample_recipes 3 zero_rng))
     = [''recipe_0001'', ''recipe_0002'', ''recipe_0003'']
   \<and> totalTime (hd (fst (create_sample_recipes 3 zero_rng)))
     = prepTime (hd (fst (create_sample_recipes 3 zero_rng)))
       + cookTime (hd (fst (create_sample_recipes 3 zero_rng)))
   \<and> length (format_04d 42) = 4"
proof -
  note t = create_sample_recipes_ids [of 3 zero_rng 42, unfolded Let_def]
  from t have "map id_str (fst (create_sample_recipes 3 zero_rng))
      = map (\<lambda>i. ''recipe_'' @ format_04d (i + 1)) [0..<nat 3]"
    by blast
  also have "\<dots> = [''recipe_0001'', ''recipe_0002'', ''recipe_0003'']"
    by code_simp
  finally have ids: "map id_str (fst (create_sample_recipes 3 zero_rng))
      = [''recipe_0001'', ''recipe_0002'', ''recipe_0003'']" .
  from t have "length (fst (create_sample_recipes 3 zero_rng)) = nat 3"
    by blast
  then have "hd (fst (create_sample_recipes 3 zero_rng)) \<in> set (fst (create_sample_recipes 3 zero_rng))"
    by (intro hd_in_set) auto
  with t have time: "totalTime (hd (fst (create_sample_recipes 3 zero_rng)))
     = prepTime (hd (fst (create_sample_recipes 3 zero_rng)))
       + cookTime (hd (fst (create_sample_recipes 3 zero_rng)))"
    by blast
  have "(42::nat) \<le> 9999"
    by simp
  with t have "length (format_04d 42) = 4"
    by blast
  with ids time show ?thesis
    by blast
qed

text \<open>The ten-thousandth id has five digits: the width of four is a minimum.\<close>

theorem create_sample_recipes_ids_counterexample:
  "id_str (fst (create_sample_recipes 10000 zero_rng) ! 9999) = ''recipe_10000''"
proof -
  have "(9999::nat) < nat 10000"
    by simp
  then have "id_str (fst (create_sample_recipes 10000 zero_rng) ! 9999)
      = ''recipe_'' @ format_04d (9999 + 1)"
    by (rule create_sample_recipes_nth)
  also have "\<dots> = ''recipe_10000''"
  proof -
    have d: "digit_char 0 = CHR ''0''" "digit_char (Suc 0) = CHR ''1''"
      by code_simp+
    have "str_nat 10000 = ''10000''"
      by (simp add: str_nat.simps d)
    then show ?thesis
      by (simp add: format_04d_def)
  qed
  finally show ?thesis .
qed

section \<open>Ingredient names\<close>

lemma of_char_lower_char:
  "(of_char (lower_char c) :: nat) =
     (let n = of_char c in
      if (65 \<le> n \<and> n \<le> 90) \<or> (192 \<le> n \<and> n \<le> 222 \<and> n \<noteq> 215) then n + 32 else n)"
  by (simp add: lower_char_def Let_def)

lemma lower_char_kept:
  assumes "is_ascii_alnum (lower_char c) \<or> isspace (lower_char c)"
  shows "is_lower_alnum (lower_char c) \<or> isspace (lower_char c)"
  using assms unfolding is_ascii_alnum_def is_lower_alnum_def isspace_def of_char_lower_char Let_def
  by (auto split: if_splits)

lemma lower_char_fixed:
  assumes "is_lower_alnum c \<or> isspace c"
  shows "lower_char c = c"
  using assms unfolding is_lower_alnum_def isspace_def lower_char_def Let_def
  by auto

lemma lower_alnum_kept: "is_lower_alnum c \<Longrightarrow> is_ascii_alnum c"
  unfolding is_lower_alnum_def is_ascii_alnum_def Let_def by auto

lemma space_not_word: "isspace c \<Longrightarrow> \<not> is_word_char c"
  unfolding isspace_def is_word_char_def Let_def by auto

lemma article_letters:
  "is_word_char CHR ''a''" "is_word_char CHR ''n''" "is_word_char CHR ''t''"
  "is_word_char CHR ''h''" "is_word_char CHR ''e''"
  by (simp_all add: is_word_char_def)

lemma match_alt_iff:
  assumes "alt \<noteq> []" and "\<forall>c\<in>set alt. is_word_char c"
  shows "match_alt alt s \<longleftrightarrow> takeWhile is_word_char s = alt"
proof
  assume "match_alt alt s"
  then obtain r where s: "s = alt @ r"
    and b: "word_boundary (Some (last alt)) (next_char r)"
    by (auto simp: match_alt_def prefix_def)
  from assms have "is_word_char (last alt)"
    by simp
  with b have "r = [] \<or> \<not> is_word_char (hd r)"
    by (cases r) (auto simp: word_boundary_def wordp_def next_char_def)
  then have "takeWhile is_word_char r = []"
    by (cases r) auto
  with assms(2) show "takeWhile is_word_char s = alt"
    by (simp add: s takeWhile_append2)
next
  assume t: "takeWhile is_word_char s = alt"
  define r where "r = dropWhile is_word_char s"
  have s: "s = alt @ r"
    unfolding r_def t [symmetric] by simp
  have "r = [] \<or> \<not> is_word_char (hd r)"
    unfolding r_def using hd_dropWhile [of is_word_char s] by blast
  moreover from assms have "is_word_char (last alt)"
    by simp
  ultimately have "word_boundary (Some (last alt)) (next_char r)"
    by (cases r) (auto simp: word_boundary_def wordp_def next_char_def)
  then show "match_alt alt s"
    by (simp add: match_alt_def s)
qed

lemma match_article_run:
  "match_article p s =
     (if \<not> wordp p \<and> takeWhile is_word_char s \<in> {''a'', ''an'', ''the''}
      then Some (takeWhile is_word_char s) else None)"
proof -
  have alts: "match_alt ''a'' s \<longleftrightarrow> takeWhile is_word_char s = ''a''"
    "match_alt ''an'' s \<longleftrightarrow> takeWhile is_word_char s = ''an''"
    "match_alt ''the'' s \<longleftrightarrow> takeWhile is_word_char s = ''the''"
    by (rule match_alt_iff; simp add: article_letters)+
  show ?thesis
  proof (cases "takeWhile is_word_char s \<in> {''a'', ''an'', ''the''}")
    case True
    then have "takeWhile is_word_char s \<noteq> []"
      by auto
    then obtain c cs where s: "s = c # cs" and c: "is_word_char c"
      by (cases s) (auto split: if_splits)
    then have "word_boundary p (next_char s) \<longleftrightarrow> \<not> wordp p"
      by (auto simp: word_boundary_def next_char_def wordp_def split: option.splits)
    with True show ?thesis
      unfolding match_article_def by (auto simp: alts)
  next
    case False
    then show ?thesis
      unfolding match_article_def by (auto simp: alts)
  qed
qed

lemma sub_articles_from_Cons:
  "sub_articles_from p (c # cs) =
     (if \<not> wordp p \<and> takeWhile is_word_char (c # cs) \<in> {''a'', ''an'', ''the''}
      then sub_articles_from (Some (last (takeWhile is_word_char (c # cs))))
             (dropWhile is_word_char (c # cs))
      else c # sub_articles_from (Some c) cs)"
proof (cases "\<not> wordp p \<and> takeWhile is_word_char (c # cs) \<in> {''a'', ''an'', ''the''}")
  case True
  then have "match_article p (c # cs) = Some (takeWhile is_word_char (c # cs))"
    by (simp only: match_article_run if_True simp_thms)
  then have "sub_articles_from p (c # cs)
      = sub_articles_from (Some (last (takeWhile is_word_char (c # cs))))
          (drop (length (takeWhile is_word_char (c # cs))) (c # cs))"
    by (simp only: sub_articles_from.simps option.case)
  with True show ?thesis
    by (simp only: if_True dropWhile_eq_drop simp_thms)
next
  case False
  then have "match_article p (c # cs) = None"
    by (simp only: match_article_run if_False simp_thms)
  then have "sub_articles_from p (c # cs) = c # sub_articles_from (Some c) cs"
    by (simp only: sub_articles_from.simps option.case)
  with False show ?thesis
    by (simp only: if_False simp_thms)
qed

lemma run_nonempty_head: "takeWhile P (c # cs) \<noteq> [] \<Longrightarrow> P c"
  by (cases "P c") simp_all

lemma article_run_head:
  assumes "takeWhile is_word_char (c # cs) \<in> {''a'', ''an'', ''the''}"
  shows "is_word_char c"
proof -
  have "takeWhile is_word_char (c # cs) \<noteq> []"
  proof
    assume e: "takeWhile is_word_char (c # cs) = []"
    from assms show False
      unfolding e by simp
  qed
  then show ?thesis
    by (rule run_nonempty_head)
qed

lemma sub_articles_from_match:
  assumes "\<not> wordp p" and "takeWhile is_word_char (c # cs) \<in> {''a'', ''an'', ''the''}"
  shows "sub_articles_from p (c # cs)
     = sub_articles_from (Some (last (takeWhile is_word_char (c # cs))))
         (dropWhile is_word_char (c # cs))"
proof -
  from assms have "\<not> wordp p \<and> takeWhile is_word_char (c # cs) \<in> {''a'', ''an'', ''the''}"
    by blast
  then show ?thesis
    by (subst sub_articles_from_Cons) (simp only: if_True simp_thms)
qed

lemma sub_articles_from_keep:
  assumes "wordp p \<or> takeWhile is_word_char (c # cs) \<notin> {''a'', ''an'', ''the''}"
  shows "sub_articles_from p (c # cs) = c # sub_articles_from (Some c) cs"
proof -
  from assms
  have "\<not> (\<not> wordp p \<and> takeWhile is_word_char (c # cs) \<in> {''a'', ''an'', ''the''})"
    by blast
  then show ?thesis
    by (subst sub_articles_from_Cons) (simp only: if_False simp_thms)
qed

lemma sub_articles_from_nonword_head:
  assumes "\<not> is_word_char c"
  shows "sub_articles_from p (c # cs) = c # sub_articles_from (Some c) cs"
proof (rule sub_articles_from_keep)
  from assms article_run_head [of c cs]
  show "wordp p \<or> takeWhile is_word_char (c # cs) \<notin> {''a'', ''an'', ''the''}"
    by blast
qed

lemma sub_articles_from_wordp:
  assumes "wordp p = wordp q"
  shows "sub_articles_from p s = sub_articles_from q s"
proof (cases s)
  case Nil
  then show ?thesis by simp
next
  case (Cons c cs)
  have "sub_articles_from p (c # cs) =
     (if \<not> wordp q \<and> takeWhile is_word_char (c # cs) \<in> {''a'', ''an'', ''the''}
      then sub_articles_from (Some (last (takeWhile is_word_char (c # cs))))
             (dropWhile is_word_char (c # cs))
      else c # sub_articles_from (Some c) cs)"
    unfolding assms [symmetric] by (rule sub_articles_from_Cons)
  also have "\<dots> = sub_articles_from q (c # cs)"
    by (rule sub_articles_from_Cons [symmetric])
  finally show ?thesis
    by (simp only: Cons)
qed

lemma sub_articles_from_nonword_prefix:
  assumes "\<forall>c\<in>set pre. \<not> is_word_char c" and "\<not> wordp p"
  shows "sub_articles_from p (pre @ s) = pre @ sub_articles_from None s"
  using assms
proof (induction pre arbitrary: p)
  case Nil
  then have "wordp p = wordp None"
    by (simp add: wordp_def)
  then have "sub_articles_from p s = sub_articles_from None s"
    by (rule sub_articles_from_wordp)
  then show ?case
    by simp
next
  case (Cons x pre)
  from Cons.prems have x: "\<not> is_word_char x"
    by simp
  then have "\<not> wordp (Some x)"
    by (simp add: wordp_def)
  with Cons.prems have "sub_articles_from (Some x) (pre @ s) = pre @ sub_articles_from None s"
    by (intro Cons.IH) simp_all
  with sub_articles_from_nonword_head [OF x, of p "pre @ s"] show ?case
    by simp
qed

lemma sub_articles_from_nonword:
  assumes "\<forall>c\<in>set post. \<not> is_word_char c"
  shows "sub_articles_from p post = post"
  using assms
proof (induction post arbitrary: p)
  case Nil
  show ?case by simp
next
  case (Cons x post)
  then have "\<not> is_word_char x" and "sub_articles_from (Some x) post = post"
    by simp_all
  then show ?case
    using sub_articles_from_nonword_head [of x p post] by simp
qed

lemma takeWhile_sub_articles_from:
  "wordp p \<Longrightarrow> takeWhile is_word_char (sub_articles_from p s) = takeWhile is_word_char s"
proof (induction s arbitrary: p)
  case Nil
  show ?case by simp
next
  case (Cons c cs)
  from Cons.prems have eq: "sub_articles_from p (c # cs) = c # sub_articles_from (Some c) cs"
    by (intro sub_articles_from_keep) simp
  show ?case
  proof (cases "is_word_char c")
    case True
    then have "wordp (Some c)"
      by (simp add: wordp_def)
    then have "takeWhile is_word_char (sub_articles_from (Some c) cs) = takeWhile is_word_char cs"
      by (rule Cons.IH)
    with True show ?thesis
      by (simp add: eq)
  next
    case False
    then show ?thesis
      by (simp add: eq)
  qed
qed

lemma set_sub_articles_from: "set (sub_articles_from p s) \<subseteq> set s"
proof (induction s arbitrary: p rule: length_induct)
  case (1 s)
  show ?case
  proof (cases s)
    case Nil
    then show ?thesis by simp
  next
    case (Cons c cs)
    let ?r = "dropWhile is_word_char (c # cs)"
    let ?t = "takeWhile is_word_char (c # cs)"
    have "length cs < length s"
      by (simp add: Cons)
    with 1 have tail: "set (sub_articles_from (Some c) cs) \<subseteq> set cs"
      by blast
    show ?thesis
    proof (cases "\<not> wordp p \<and> ?t \<in> {''a'', ''an'', ''the''}")
      case True
      then have "is_word_char c"
        using article_run_head by blast
      then have "length ?r < length s"
        by (simp add: Cons length_dropWhile_le less_Suc_eq_le)
      with 1 have "set (sub_articles_from (Some (last ?t)) ?r) \<subseteq> set ?r"
        by blast
      also have "\<dots> \<subseteq> set (c # cs)"
        by (rule subsetI) (rule set_dropWhileD)
      finally have "set (sub_articles_from (Some (last ?t)) ?r) \<subseteq> set (c # cs)" .
      moreover from True have "sub_articles_from p (c # cs) = sub_articles_from (Some (last ?t)) ?r"
        by (intro sub_articles_from_match) blast+
      ultimately show ?thesis
        by (simp only: Cons)
    next
      case False
      then have "sub_articles_from p (c # cs) = c # sub_articles_from (Some c) cs"
        by (intro sub_articles_from_keep) blast
      with tail show ?thesis
        by (auto simp: Cons)
    qed
  qed
qed


lemma run_append_nonword:
  assumes "\<forall>c\<in>set post. \<not> is_word_char c"
  shows "takeWhile is_word_char (s @ post) = takeWhile is_word_char s"
    and "dropWhile is_word_char (s @ post) = dropWhile is_word_char s @ post"
proof -
  from assms have t: "takeWhile is_word_char post = []" and d: "dropWhile is_word_char post = post"
    by (cases post; simp)+
  show "takeWhile is_word_char (s @ post) = takeWhile is_word_char s"
    by (induction s) (simp_all add: t)
  show "dropWhile is_word_char (s @ post) = dropWhile is_word_char s @ post"
    by (induction s) (simp_all add: d)
qed

lemma sub_articles_from_append_nonword:
  assumes post: "\<forall>c\<in>set post. \<not> is_word_char c"
  shows "sub_articles_from p (s @ post) = sub_articles_from p s @ post"
proof (induction s arbitrary: p rule: length_induct)
  case (1 s)
  show ?case
  proof (cases s)
    case Nil
    with post show ?thesis
      by (simp add: sub_articles_from_nonword)
  next
    case (Cons c cs)
    let ?t = "takeWhile is_word_char (c # cs)"
    let ?r = "dropWhile is_word_char (c # cs)"
    have t: "takeWhile is_word_char (c # cs @ post) = ?t"
      and r: "dropWhile is_word_char (c # cs @ post) = ?r @ post"
      using run_append_nonword [OF post, of "c # cs"] by simp_all
    show ?thesis
    proof (cases "\<not> wordp p \<and> ?t \<in> {''a'', ''an'', ''the''}")
      case True
      then have "is_word_char c"
        using article_run_head by blast
      then have "length ?r < length s"
        by (simp add: Cons length_dropWhile_le less_Suc_eq_le)
      with 1 have ih: "sub_articles_from (Some (last ?t)) (?r @ post)
          = sub_articles_from (Some (last ?t)) ?r @ post"
        by blast
      from True have "sub_articles_from p (c # cs) = sub_articles_from (Some (last ?t)) ?r"
        by (intro sub_articles_from_match) blast+
      moreover from True have "sub_articles_from p (c # cs @ post)
          = sub_articles_from (Some (last ?t)) (?r @ post)"
        using sub_articles_from_match [of p c "cs @ post"] by (simp only: t r) blast
      ultimately show ?thesis
        using ih by (simp add: Cons)
    next
      case False
      have "length cs < length s"
        by (simp add: Cons)
      with 1 have ih: "sub_articles_from (Some c) (cs @ post) = sub_articles_from (Some c) cs @ post"
        by blast
      from False have "sub_articles_from p (c # cs) = c # sub_articles_from (Some c) cs"
        by (intro sub_articles_from_keep) blast
      moreover from False have "sub_articles_from p (c # cs @ post)
          = c # sub_articles_from (Some c) (cs @ post)"
        by (intro sub_articles_from_keep) (simp only: t, blast)
      ultimately show ?thesis
        using ih by (simp add: Cons)
    qed
  qed
qed

lemma sub_articles_from_idem:
  "wordp q = wordp p \<or> s = [] \<or> \<not> is_word_char (hd s) \<Longrightarrow>
   sub_articles_from q (sub_articles_from p s) = sub_articles_from p s"
proof (induction s arbitrary: p q rule: length_induct)
  case (1 s)
  show ?case
  proof (cases s)
    case Nil
    then show ?thesis by simp
  next
    case (Cons c cs)
    let ?t = "takeWhile is_word_char (c # cs)"
    let ?r = "dropWhile is_word_char (c # cs)"
    show ?thesis
    proof (cases "\<not> wordp p \<and> ?t \<in> {''a'', ''an'', ''the''}")
      case True
      then have "is_word_char c"
        using article_run_head by blast
      then have "length ?r < length s"
        by (simp add: Cons length_dropWhile_le less_Suc_eq_le)
      moreover have "?r = [] \<or> \<not> is_word_char (hd ?r)"
        using hd_dropWhile [of is_word_char "c # cs"] by blast
      ultimately have "sub_articles_from q (sub_articles_from (Some (last ?t)) ?r)
          = sub_articles_from (Some (last ?t)) ?r"
        using 1 by blast
      moreover from True have "sub_articles_from p (c # cs) = sub_articles_from (Some (last ?t)) ?r"
        by (intro sub_articles_from_match) blast+
      ultimately show ?thesis
        by (simp only: Cons)
    next
      case False
      let ?out = "sub_articles_from (Some c) cs"
      from False have eq: "sub_articles_from p (c # cs) = c # ?out"
        by (intro sub_articles_from_keep) blast
      have "length cs < length s"
        by (simp add: Cons)
      with 1 have ih: "sub_articles_from (Some c) ?out = ?out"
        by blast
      have "sub_articles_from q (c # ?out) = c # sub_articles_from (Some c) ?out"
      proof (cases "is_word_char c")
        case True
        then have "wordp (Some c)"
          by (simp add: wordp_def)
        then have "takeWhile is_word_char ?out = takeWhile is_word_char cs"
          by (rule takeWhile_sub_articles_from)
        with True have "takeWhile is_word_char (c # ?out) = ?t"
          by simp
        moreover from True 1(2) have "wordp q = wordp p"
          by (simp add: Cons)
        ultimately show ?thesis
          using False by (intro sub_articles_from_keep) (simp only:, blast)
      next
        case False
        then show ?thesis
          by (rule sub_articles_from_nonword_head)
      qed
      with ih eq show ?thesis
        by (simp only: Cons)
    qed
  qed
qed


lemma strip_decomp:
  "\<exists>pre post. s = pre @ strip s @ post \<and> (\<forall>c\<in>set pre. isspace c) \<and> (\<forall>c\<in>set post. isspace c)"
proof -
  define m where "m = dropWhile isspace s"
  have s: "s = takeWhile isspace s @ m"
    by (simp add: m_def)
  have "rev (takeWhile isspace (rev m) @ dropWhile isspace (rev m))
      = rev (dropWhile isspace (rev m)) @ rev (takeWhile isspace (rev m))"
    by (rule rev_append)
  moreover have "takeWhile isspace (rev m) @ dropWhile isspace (rev m) = rev m"
    by (rule takeWhile_dropWhile_id)
  ultimately have "rev (rev m) = rev (dropWhile isspace (rev m)) @ rev (takeWhile isspace (rev m))"
    by (simp only:)
  then have m: "m = strip s @ rev (takeWhile isspace (rev m))"
    by (simp only: rev_rev_ident strip_def m_def)
  have "\<forall>c\<in>set (takeWhile isspace s). isspace c"
    by (auto dest: set_takeWhileD)
  moreover have "\<forall>c\<in>set (rev (takeWhile isspace (rev m))). isspace c"
    by (auto dest: set_takeWhileD)
  moreover have "s = takeWhile isspace s @ strip s @ rev (takeWhile isspace (rev m))"
    using s m by simp
  ultimately show ?thesis
    by blast
qed

lemma set_strip: "set (strip s) \<subseteq> set s"
proof -
  obtain pre post where "s = pre @ strip s @ post"
    using strip_decomp by blast
  then have "set s = set pre \<union> set (strip s) \<union> set post"
    by (metis set_append sup_assoc)
  then show ?thesis
    by blast
qed

lemma last_dropWhile_nonempty: "dropWhile P xs \<noteq> [] \<Longrightarrow> last (dropWhile P xs) = last xs"
  by (induction xs) (auto split: if_splits)

lemma strip_ends:
  assumes "strip s \<noteq> []"
  shows "\<not> isspace (hd (strip s))" and "\<not> isspace (last (strip s))"
proof -
  define m where "m = dropWhile isspace s"
  define d where "d = dropWhile isspace (rev m)"
  have st: "strip s = rev d"
    by (simp add: strip_def m_def d_def)
  with assms have d: "d \<noteq> []"
    by simp
  then have "\<not> isspace (hd d)"
    unfolding d_def using hd_dropWhile [of isspace "rev m"] by blast
  with d show "\<not> isspace (last (strip s))"
    by (simp add: st last_rev)
  from d have "rev m \<noteq> []"
    unfolding d_def by auto
  then have m: "m \<noteq> []"
    by simp
  then have "\<not> isspace (hd m)"
    unfolding m_def using hd_dropWhile [of isspace s] by blast
  moreover from d have "last d = last (rev m)"
    unfolding d_def by (rule last_dropWhile_nonempty)
  moreover from m have "last (rev m) = hd m"
    by (simp add: last_rev)
  ultimately show "\<not> isspace (hd (strip s))"
    using d by (simp add: st hd_rev)
qed

lemma strip_fixed:
  assumes "s = [] \<or> (\<not> isspace (hd s) \<and> \<not> isspace (last s))"
  shows "strip s = s"
proof (cases s)
  case Nil
  then show ?thesis
    by (simp add: strip_def)
next
  case (Cons c cs)
  with assms have h: "\<not> isspace (hd s)" and l: "\<not> isspace (last s)"
    by simp_all
  from h Cons have "dropWhile isspace s = s"
    by simp
  moreover have "dropWhile isspace (rev s) = rev s"
  proof -
    from Cons obtain x xs where r: "rev s = x # xs"
      by (cases "rev s") auto
    from Cons have "hd (rev s) = last s"
      by (simp add: hd_rev)
    with l r have "\<not> isspace x"
      by simp
    then show ?thesis
      by (simp add: r)
  qed
  ultimately show ?thesis
    by (simp add: strip_def)
qed

lemma strip_strip: "strip (strip s) = strip s"
  using strip_ends [of s] by (intro strip_fixed) blast

lemma sub_articles_strip:
  assumes "sub_articles v = v"
  shows "sub_articles (strip v) = strip v"
proof -
  obtain pre post where v: "v = pre @ strip v @ post"
    and pre: "\<forall>c\<in>set pre. isspace c" and post: "\<forall>c\<in>set post. isspace c"
    using strip_decomp by blast
  from pre post have pre': "\<forall>c\<in>set pre. \<not> is_word_char c"
    and post': "\<forall>c\<in>set post. \<not> is_word_char c"
    by (auto dest: space_not_word)
  have "\<not> wordp None"
    by (simp add: wordp_def)
  with pre' have "sub_articles_from None (pre @ strip v @ post)
      = pre @ sub_articles_from None (strip v @ post)"
    by (rule sub_articles_from_nonword_prefix)
  also have "\<dots> = pre @ sub_articles_from None (strip v) @ post"
    using post' by (simp only: sub_articles_from_append_nonword)
  finally have "sub_articles v = pre @ sub_articles (strip v) @ post"
    unfolding sub_articles_def using v by simp
  with assms have "pre @ sub_articles (strip v) @ post = pre @ strip v @ post"
    using v by simp
  then show ?thesis
    by simp
qed

lemma clean_chars: "\<forall>c\<in>set (clean_ingredient_name s). is_lower_alnum c \<or> isspace c"
proof
  fix c assume "c \<in> set (clean_ingredient_name s)"
  then have "c \<in> set (sub_articles (strip (sub_special (lower s))))"
    unfolding clean_ingredient_name_def Let_def using set_strip by blast
  then have "c \<in> set (strip (sub_special (lower s)))"
    unfolding sub_articles_def using set_sub_articles_from by blast
  then have "c \<in> set (sub_special (lower s))"
    using set_strip by blast
  then obtain c0 where "c = lower_char c0" and "is_ascii_alnum c \<or> isspace c"
    by (auto simp: sub_special_def lower_def)
  then show "is_lower_alnum c \<or> isspace c"
    using lower_char_kept by blast
qed

lemma words_from_run:
  "word \<noteq> [] \<Longrightarrow> \<exists>rest. words_from word s = (word @ takeWhile is_word_char s) # rest"
proof (induction s arbitrary: word)
  case Nil
  then show ?case by simp
next
  case (Cons a s)
  show ?case
  proof (cases "is_word_char a")
    case True
    from Cons.IH [of "word @ [a]"] obtain rest
      where "words_from (word @ [a]) s = ((word @ [a]) @ takeWhile is_word_char s) # rest"
      by auto
    with True show ?thesis by simp
  next
    case False
    with Cons.prems show ?thesis by simp
  qed
qed

lemma sub_articles_from_no_article:
  assumes "\<forall>w\<in>set (words_from word s). w \<notin> {''a'', ''an'', ''the''}"
    and "word = [] \<longleftrightarrow> \<not> wordp p"
  shows "sub_articles_from p s = s"
  using assms
proof (induction s arbitrary: word p)
  case Nil
  show ?case by simp
next
  case (Cons c cs)
  show ?case
  proof (cases "is_word_char c")
    case True
    then have step: "words_from word (c # cs) = words_from (word @ [c]) cs"
      by simp
    from True have "wordp (Some c)"
      by (simp add: wordp_def)
    then have "word @ [c] = [] \<longleftrightarrow> \<not> wordp (Some c)"
      by simp
    with Cons.prems(1) have tail: "sub_articles_from (Some c) cs = cs"
      unfolding step by (rule Cons.IH)
    have "wordp p \<or> takeWhile is_word_char (c # cs) \<notin> {''a'', ''an'', ''the''}"
    proof (cases "wordp p")
      case True
      then show ?thesis ..
    next
      case False
      with Cons.prems(2) have "word = []"
        by simp
      moreover obtain rest where "words_from [c] cs = ([c] @ takeWhile is_word_char cs) # rest"
        using words_from_run [of "[c]" cs] by blast
      ultimately have "takeWhile is_word_char (c # cs) \<in> set (words_from word (c # cs))"
        using True by simp
      with Cons.prems(1) show ?thesis
        by blast
    qed
    then have "sub_articles_from p (c # cs) = c # sub_articles_from (Some c) cs"
      by (rule sub_articles_from_keep)
    with tail show ?thesis
      by simp
  next
    case False
    then have "set (words_from [] cs) \<subseteq> set (words_from word (c # cs))"
      by auto
    with Cons.prems(1) have "\<forall>w\<in>set (words_from [] cs). w \<notin> {''a'', ''an'', ''the''}"
      by blast
    moreover from False have "[] = [] \<longleftrightarrow> \<not> wordp (Some c)"
      by (simp add: wordp_def)
    ultimately have "sub_articles_from (Some c) cs = cs"
      by (rule Cons.IH)
    with sub_articles_from_nonword_head [OF False, of p cs] show ?thesis
      by simp
  qed
qed

lemma clean_fixed:
  assumes chars: "\<forall>c\<in>set s. is_lower_alnum c \<or> isspace c"
    and ends: "s \<noteq> [] \<longrightarrow> \<not> isspace (hd s) \<and> \<not> isspace (last s)"
    and words: "\<forall>w\<in>set (words_of s). w \<notin> {''a'', ''an'', ''the''}"
  shows "clean_ingredient_name s = s"
proof -
  from chars have "map lower_char s = s"
    by (intro map_idI) (simp add: lower_char_fixed)
  then have lower: "lower s = s"
    by (simp add: lower_def)
  from chars have "\<forall>c\<in>set s. is_ascii_alnum c \<or> isspace c"
    using lower_alnum_kept by blast
  then have special: "sub_special s = s"
    by (simp add: sub_special_def)
  from ends have stripped: "strip s = s"
    by (intro strip_fixed) blast
  have "[] = [] \<longleftrightarrow> \<not> wordp None"
    by (simp add: wordp_def)
  with words have articles: "sub_articles s = s"
    unfolding words_of_def sub_articles_def by (rule sub_articles_from_no_article)
  show ?thesis
    by (simp add: clean_ingredient_name_def lower special stripped articles)
qed

text \<open>
  C2, as the code has it. For every input string the result of \<open>clean_ingredient_name\<close>
  contains only the lowercase letters a to z, the digits and whitespace characters,
  and has no whitespace at either end. Whitespace inside a name is not collapsed: a
  name that has this form already and none of whose words is \<^verbatim>\<open>a\<close>, \<^verbatim>\<open>an\<close> or
  \<^verbatim>\<open>the\<close> is returned as it is, whichever whitespace characters it contains and
  however many in a row. \<^verbatim>\<open>A Ripe TOMATO!\<close> gives \<^verbatim>\<open>ripe tomato\<close>.
\<close>

theorem clean_ingredient_name_chars:
  "(\<forall>c\<in>set (clean_ingredient_name s). is_lower_alnum c \<or> isspace c)
   \<and> (clean_ingredient_name s \<noteq> [] \<longrightarrow>
        \<not> isspace (hd (clean_ingredient_name s)) \<and> \<not> isspace (last (clean_ingredient_name s)))
   \<and> ((\<forall>c\<in>set s. is_lower_alnum c \<or> isspace c)
        \<and> (s \<noteq> [] \<longrightarrow> \<not> isspace (hd s) \<and> \<not> isspace (last s))
        \<and> (\<forall>w\<in>set (words_of s). w \<notin> {''a'', ''an'', ''the''})
        \<longrightarrow> clean_ingredient_name s = s)
   \<and> clean_ingredient_name ''A Ripe TOMATO!'' = ''ripe tomato''"
proof (intro conjI impI)
  show "\<forall>c\<in>set (clean_ingredient_name s). is_lower_alnum c \<or> isspace c"
    by (rule clean_chars)
  show "\<not> isspace (hd (clean_ingredient_name s))" if "clean_ingredient_name s \<noteq> []"
    using that unfolding clean_ingredient_name_def Let_def by (rule strip_ends)
  show "\<not> isspace (last (clean_ingredient_name s))" if "clean_ingredient_name s \<noteq> []"
    using that unfolding clean_ingredient_name_def Let_def by (rule strip_ends)
  show "clean_ingredient_name s = s"
    if "(\<forall>c\<in>set s. is_lower_alnum c \<or> isspace c)
        \<and> (s \<noteq> [] \<longrightarrow> \<not> isspace (hd s) \<and> \<not> isspace (last s))
        \<and> (\<forall>w\<in>set (words_of s). w \<notin> {''a'', ''an'', ''the''})"
    using that by (intro clean_fixed) blast+
  show "clean_ingredient_name ''A Ripe TOMATO!'' = ''ripe tomato''"
    by code_simp
qed

theorem clean_ingredient_name_chars_witness:
  "clean_ingredient_name ''The  Olive-Oil'' \<noteq> []
   \<and> \<not> isspace (hd (clean_ingredient_name ''The  Olive-Oil''))
   \<and> \<not> isspace (last (clean_ingredient_name ''The  Olive-Oil''))
   \<and> is_lower_alnum (hd (clean_ingredient_name ''The  Olive-Oil''))
   \<and> clean_ingredient_name (''salt  and'' @ [CHR 0x09] @ ''pepper'')
       = ''salt  and'' @ [CHR 0x09] @ ''pepper''"
proof -
  have ne: "clean_ingredient_name ''The  Olive-Oil'' \<noteq> []"
    by code_simp
  then have "hd (clean_ingredient_name ''The  Olive-Oil'')
      \<in> set (clean_ingredient_name ''The  Olive-Oil'')"
    by (rule hd_in_set)
  with ne clean_ingredient_name_chars [of "''The  Olive-Oil''"]
  have first: "clean_ingredient_name ''The  Olive-Oil'' \<noteq> []
   \<and> \<not> isspace (hd (clean_ingredient_name ''The  Olive-Oil''))
   \<and> \<not> isspace (last (clean_ingredient_name ''The  Olive-Oil''))
   \<and> is_lower_alnum (hd (clean_ingredient_name ''The  Olive-Oil''))"
    by blast
  let ?s = "''salt  and'' @ [CHR 0x09] @ ''pepper''"
  have "\<forall>c\<in>set ?s. is_lower_alnum c \<or> isspace c"
    by code_simp
  moreover have "?s \<noteq> [] \<longrightarrow> \<not> isspace (hd ?s) \<and> \<not> isspace (last ?s)"
    by code_simp
  moreover have "\<forall>w\<in>set (words_of ?s). w \<notin> {''a'', ''an'', ''the''}"
    by code_simp
  ultimately have "clean_ingredient_name ?s = ?s"
    using clean_ingredient_name_chars [of ?s] by blast
  with first show ?thesis
    by blast
qed

text \<open>A tab inside the name stays, and the article removed between two spaces leaves
  both of them.\<close>

theorem clean_ingredient_name_chars_counterexample:
  "clean_ingredient_name (''salt and a pepper'' @ [CHR 0x09] @ ''corn'')
     = ''salt and  pepper'' @ [CHR 0x09] @ ''corn''"
  by code_simp

text \<open>
  C10. \<open>clean_ingredient_name\<close> is idempotent: cleaning a cleaned name changes
  nothing.
\<close>

theorem clean_ingredient_name_idempotent:
  "clean_ingredient_name (clean_ingredient_name s) = clean_ingredient_name s"
proof -
  define u where "u = strip (sub_special (lower s))"
  define t where "t = clean_ingredient_name s"
  have t: "t = strip (sub_articles u)"
    by (simp add: t_def u_def clean_ingredient_name_def)
  have chars: "\<forall>c\<in>set t. is_lower_alnum c \<or> isspace c"
    unfolding t_def by (rule clean_chars)
  then have "map lower_char t = t"
    by (intro map_idI) (simp add: lower_char_fixed)
  then have lower: "lower t = t"
    by (simp add: lower_def)
  from chars have "\<forall>c\<in>set t. is_ascii_alnum c \<or> isspace c"
    using lower_alnum_kept by blast
  then have special: "sub_special t = t"
    by (simp add: sub_special_def)
  have stripped: "strip t = t"
    unfolding t by (rule strip_strip)
  have "sub_articles (sub_articles u) = sub_articles u"
    unfolding sub_articles_def by (rule sub_articles_from_idem) simp
  then have articles: "sub_articles t = t"
    unfolding t by (rule sub_articles_strip)
  have "clean_ingredient_name t = t"
    by (simp add: clean_ingredient_name_def lower special stripped articles)
  then show ?thesis
    by (simp only: t_def)
qed

theorem clean_ingredient_name_idempotent_witness:
  "clean_ingredient_name (clean_ingredient_name ''The Fresh BASIL & a lemon'') = ''fresh basil   lemon''"
proof -
  have "clean_ingredient_name ''The Fresh BASIL & a lemon'' = ''fresh basil   lemon''"
    by code_simp
  with clean_ingredient_name_idempotent [of "''The Fresh BASIL & a lemon''"]
  show ?thesis by simp
qed

end
